theory Spec2Isabelle
  imports Complex_Main "HOL-Library.Char_ord" "HOL-Library.List_Lexorder" "HOL-Library.Log_Nat"
begin

section \<open>Python values used by the generator\<close>

text \<open>
  The exceptions that the modelled part of \<^verbatim>\<open>backend/demo.py\<close> can raise.
  \<open>SystemExit n\<close> is \<^verbatim>\<open>exit(n)\<close>; \<open>DriverError\<close> stands for any exception raised
  by \<^verbatim>\<open>session.execute\<close> of the Cassandra driver.
\<close>

datatype exn =
    SystemExit int
  | OSError
  | IndexError
  | ValueError
  | OverflowError
  | DriverError
  | KeyboardInterrupt

subsection \<open>Python floats (IEEE binary64)\<close>

text \<open>
  A Python \<^verbatim>\<open>float\<close> is a binary64 value: a finite number (kept here as the exact
  rational it denotes), an infinity or a NaN. The sign of zero is not kept: nothing
  the generator computes depends on it.
\<close>

datatype pyfloat = Finite rat | PosInf | NegInf | NaN

definition pow2 :: "int \<Rightarrow> rat" where
  "pow2 e = (if 0 \<le> e then 2 ^ nat e else 1 / 2 ^ nat (- e))"

text \<open>\<open>floor_log2 x\<close> is the exponent \<open>e\<close> with \<open>2^e \<le> x < 2^(e+1)\<close>, for \<open>x > 0\<close>.\<close>

definition floor_log2 :: "rat \<Rightarrow> int" where
  "floor_log2 x =
     (let (a, b) = quotient_of x; e = bitlen a - bitlen b
      in if pow2 e \<le> x then e else e - 1)"

definition round_half_even :: "rat \<Rightarrow> int" where
  "round_half_even x =
     (let f = \<lfloor>x\<rfloor>; d = x - of_int f
      in if d < 1 / 2 then f
         else if 1 / 2 < d then f + 1
         else if even f then f else f + 1)"

text \<open>
  Rounding of a positive rational to the nearest binary64 value, ties to even:
  53 significant bits, least exponent \<open>-1022\<close> (below it the spacing stays
  \<open>2^-1074\<close>, the subnormal range), overflow to infinity from \<open>2^1024\<close>.
\<close>

definition round_binary64_pos :: "rat \<Rightarrow> pyfloat" where
  "round_binary64_pos x =
     (let e = max (floor_log2 x) (- 1022);
          q = pow2 (e - 52);
          y = of_int (round_half_even (x / q)) * q
      in if pow2 1024 \<le> y then PosInf else Finite y)"

fun float_neg :: "pyfloat \<Rightarrow> pyfloat" where
  "float_neg (Finite r) = Finite (- r)"
| "float_neg PosInf = NegInf"
| "float_neg NegInf = PosInf"
| "float_neg NaN = NaN"

definition round_binary64 :: "rat \<Rightarrow> pyfloat" where
  "round_binary64 x =
     (if x = 0 then Finite 0
      else if 0 < x then round_binary64_pos x
      else float_neg (round_binary64_pos (- x)))"

text \<open>The product of two floats, \<^verbatim>\<open>a * b\<close>: the exact product, rounded.\<close>

fun float_mul :: "pyfloat \<Rightarrow> pyfloat \<Rightarrow> pyfloat" where
  "float_mul (Finite a) (Finite b) = round_binary64 (a * b)"
| "float_mul NaN _ = NaN"
| "float_mul _ NaN = NaN"
| "float_mul PosInf (Finite b) = (if b = 0 then NaN else if 0 < b then PosInf else NegInf)"
| "float_mul NegInf (Finite b) = (if b = 0 then NaN else if 0 < b then NegInf else PosInf)"
| "float_mul (Finite a) PosInf = (if a = 0 then NaN else if 0 < a then PosInf else NegInf)"
| "float_mul (Finite a) NegInf = (if a = 0 then NaN else if 0 < a then NegInf else PosInf)"
| "float_mul PosInf PosInf = PosInf"
| "float_mul PosInf NegInf = NegInf"
| "float_mul NegInf PosInf = NegInf"
| "float_mul NegInf NegInf = PosInf"

text \<open>
  \<^verbatim>\<open>int(x)\<close> of a float truncates towards zero; it raises \<^verbatim>\<open>OverflowError\<close> on an
  infinity and \<^verbatim>\<open>ValueError\<close> on a NaN.
\<close>

fun py_int :: "pyfloat \<Rightarrow> exn + int" where
  "py_int (Finite r) = Inr (if 0 \<le> r then \<lfloor>r\<rfloor> else \<lceil>r\<rceil>)"
| "py_int PosInf = Inl OverflowError"
| "py_int NegInf = Inl OverflowError"
| "py_int NaN = Inl ValueError"

text \<open>
  The text of the \<^verbatim>\<open>amount\<close> column. \<open>Decimal m k\<close> is a decimal literal whose value
  is \<open>m / 10^k\<close> (\<^verbatim>\<open>"19.99"\<close> is \<open>Decimal 1999 2\<close>, \<^verbatim>\<open>"-5.00"\<close> is
  \<open>Decimal (-500) 2\<close>); \<open>InfText\<close> and \<open>NanText\<close> are the special spellings that
  \<^verbatim>\<open>float()\<close> accepts, and \<open>Malformed\<close> is any text it rejects.
  \<^verbatim>\<open>float(s)\<close> is correctly rounded.
\<close>

datatype amount_text = Decimal int nat | InfText bool | NanText | Malformed

fun py_float :: "amount_text \<Rightarrow> exn + pyfloat" where
  "py_float (Decimal m k) = Inr (round_binary64 (of_int m / 10 ^ k))"
| "py_float (InfText negative) = Inr (if negative then NegInf else PosInf)"
| "py_float NanText = Inr NaN"
| "py_float Malformed = Inl ValueError"

text \<open>The counter increment \<^verbatim>\<open>int(amount * 100)\<close>.\<close>

definition minor_units :: "pyfloat \<Rightarrow> exn + int" where
  "minor_units amount = py_int (float_mul amount (Finite 100))"


text \<open>
  The amount in integer minor units as the specification words it: the decimal
  amount times 100, exactly, when that is a whole number of cents.
\<close>

definition spec_minor_units :: "amount_text \<Rightarrow> int option" where
  "spec_minor_units a =
     (case a of
        Decimal m k \<Rightarrow>
          (if k \<le> 2 then Some (m * 10 ^ (2 - k))
           else if 10 ^ (k - 2) dvd m then Some (m div 10 ^ (k - 2)) else None)
      | _ \<Rightarrow> None)"

subsection \<open>Helper functions of the generator\<close>

text \<open>
  \<^verbatim>\<open>def clean_merchant(merchant):
      return merchant[6:] if merchant.startswith("fraud_") else merchant\<close>
\<close>

definition startswith :: "string \<Rightarrow> string \<Rightarrow> bool" where
  "startswith s p = (take (length p) s = p)"

definition clean_merchant :: "string \<Rightarrow> string" where
  "clean_merchant merchant =
     (if startswith merchant ''fraud_'' then drop 6 merchant else merchant)"

text \<open>
  A naive \<^verbatim>\<open>datetime\<close>, as \<^verbatim>\<open>datetime.now()\<close> returns it. Python keeps the year
  in 1..9999, the month in 1..12, the day in 1..31, the hour in 0..23, minute and
  second in 0..59 and the microsecond below 1000000. Two naive datetimes compare
  field by field, the year first.
\<close>

record datetime =
  year :: nat
  month :: nat
  day :: nat
  hour :: nat
  minute :: nat
  second :: nat
  microsecond :: nat





text \<open>
  \<^verbatim>\<open>strftime\<close>, for the directives the repository uses, as CPython on Linux
  (the C library's \<^verbatim>\<open>strftime\<close>) computes it. \<^verbatim>\<open>%Y\<close> is the year as a decimal
  number without padding (\<^verbatim>\<open>999\<close>, \<^verbatim>\<open>2024\<close>); \<^verbatim>\<open>%m\<close>, \<^verbatim>\<open>%d\<close>, \<^verbatim>\<open>%H\<close>,
  \<^verbatim>\<open>%M\<close> and \<^verbatim>\<open>%S\<close> are zero-padded to width 2. Every other character of the
  format is copied.
\<close>

definition digit :: "nat \<Rightarrow> char" where
  "digit d = char_of (48 + d)"

fun digits :: "nat \<Rightarrow> string" where
  "digits n = (if n < 10 then [digit n] else digits (n div 10) @ [digit (n mod 10)])"

declare digits.simps [simp del]

definition zero_pad :: "nat \<Rightarrow> nat \<Rightarrow> string" where
  "zero_pad w n = replicate (w - length (digits n)) (CHR ''0'') @ digits n"

fun strftime :: "string \<Rightarrow> datetime \<Rightarrow> string" where
  "strftime [] dt = []"
| "strftime [c] dt = [c]"
| "strftime (c # d # fmt) dt =
     (if c = CHR ''%'' then
        (if d = CHR ''Y'' then digits (year dt) @ strftime fmt dt
         else if d = CHR ''m'' then zero_pad 2 (month dt) @ strftime fmt dt
         else if d = CHR ''d'' then zero_pad 2 (day dt) @ strftime fmt dt
         else if d = CHR ''H'' then zero_pad 2 (hour dt) @ strftime fmt dt
         else if d = CHR ''M'' then zero_pad 2 (minute dt) @ strftime fmt dt
         else if d = CHR ''S'' then zero_pad 2 (second dt) @ strftime fmt dt
         else c # d # strftime fmt dt)
      else c # strftime (d # fmt) dt)"

text \<open>
  \<^verbatim>\<open>def get_hour_bucket(dt):
      return dt.strftime('%Y-%m-%d-%H')\<close>
\<close>

definition get_hour_bucket :: "datetime \<Rightarrow> string" where
  "get_hour_bucket dt = strftime ''%Y-%m-%d-%H'' dt"

text \<open>
  The dashboard (\<^verbatim>\<open>backend/dashboard.py\<close>, query 5) computes the partition it reads:
  \<^verbatim>\<open>current_hour = datetime.now().strftime('%Y-%m-%d-%H')\<close>, from its own clock
  reading \<open>now\<close>.
\<close>

definition current_hour :: "datetime \<Rightarrow> string" where
  "current_hour now = strftime ''%Y-%m-%d-%H'' now"

section \<open>Source rows and the data loading step\<close>

text \<open>
  A row of the dataset, as \<^verbatim>\<open>csv.DictReader\<close> yields it, restricted to the four
  columns the generator reads: \<open>row_amount r\<close> is \<^verbatim>\<open>row['amount']\<close>, and so on.
\<close>

record row =
  row_amount :: amount_text
  row_category :: string
  row_merchant :: string
  row_payment_method :: string

text \<open>
  The source file as the loading step sees it: \<open>n_lines\<close> is what
  \<^verbatim>\<open>sum(1 for _ in f)\<close> counts and \<open>records\<close> is what the \<^verbatim>\<open>DictReader\<close> yields.
  The reader takes the first line as the header and at least one line for every
  record, which \<open>wf_source\<close> states.
\<close>

record source_file =
  n_lines :: nat
  records :: "row list"

definition wf_source :: "source_file \<Rightarrow> bool" where
  "wf_source f \<longleftrightarrow> (if n_lines f = 0 then records f = [] else length (records f) < n_lines f)"

text \<open>
  What is at \<^verbatim>\<open>FILE_PATH\<close>: nothing (\<^verbatim>\<open>os.path.exists\<close> is false), a file that
  \<^verbatim>\<open>open\<close> refuses, or a readable file.
\<close>

datatype path_state = Absent | Unreadable | Readable source_file

text \<open>
  One iteration of the sampling loop, for the record \<open>r\<close> at position \<open>i\<close>, with
  \<open>cap\<close> = \<^verbatim>\<open>MAX_ROWS_IN_MEMORY\<close>. \<open>draw i\<close> is the random source behind
  \<^verbatim>\<open>random.randint(0, i)\<close>, whose result lies in \<open>0..i\<close>. An assignment to a
  list index that does not exist raises \<^verbatim>\<open>IndexError\<close>.
\<close>

definition sample_step :: "int \<Rightarrow> (nat \<Rightarrow> nat) \<Rightarrow> nat \<Rightarrow> row \<Rightarrow> row list \<Rightarrow> exn + row list" where
  "sample_step cap draw i r all_transactions =
     (if int i < cap then Inr (all_transactions @ [r])
      else
        (let j = draw i mod Suc i
         in if int j < cap then
              (if j < length all_transactions then Inr (all_transactions[j := r])
               else Inl IndexError)
            else Inr all_transactions))"

fun reservoir :: "int \<Rightarrow> (nat \<Rightarrow> nat) \<Rightarrow> nat \<Rightarrow> row list \<Rightarrow> row list \<Rightarrow> exn + row list" where
  "reservoir cap draw i [] all_transactions = Inr all_transactions"
| "reservoir cap draw i (r # rs) all_transactions =
     (case sample_step cap draw i r all_transactions of
        Inl e \<Rightarrow> Inl e
      | Inr ws \<Rightarrow> reservoir cap draw (Suc i) rs ws)"

text \<open>Step 5 of the script (lines 227 to 254): the working set, or the exception.\<close>

definition load_data :: "path_state \<Rightarrow> int \<Rightarrow> (nat \<Rightarrow> nat) \<Rightarrow> exn + row list" where
  "load_data path cap draw =
     (case path of
        Absent \<Rightarrow> Inl (SystemExit 1)
      | Unreadable \<Rightarrow> Inl OSError
      | Readable f \<Rightarrow>
          (let total_rows = int (n_lines f) - 1
           in if cap < total_rows then reservoir cap draw 0 (records f) []
              else Inr (records f)))"

section \<open>The seven tables\<close>

text \<open>
  A log table is kept as the sequence of rows inserted into it. A counter table maps
  its key to the two counter columns; a key that was never updated has no row, and
  a counter update on it starts from zero.
\<close>

record txn_by_user_row =
  tu_user_id :: string
  tu_transaction_time :: datetime
  tu_transaction_id :: nat
  tu_amount :: pyfloat
  tu_category :: string
  tu_merchant :: string
  tu_payment_method :: string

record txn_by_category_row =
  tc_user_id :: string
  tc_category :: string
  tc_transaction_time :: datetime
  tc_transaction_id :: nat
  tc_amount :: pyfloat
  tc_merchant :: string

record hourly_row =
  ht_hour_bucket :: string
  ht_transaction_time :: datetime
  ht_transaction_id :: nat
  ht_user_id :: string
  ht_amount :: pyfloat
  ht_category :: string

record counter_row =
  total_amount :: int
  transaction_count :: int

record db =
  transactions_by_user :: "txn_by_user_row list"
  transactions_by_category :: "txn_by_category_row list"
  hourly_transactions :: "hourly_row list"
  spending_by_category :: "string \<rightharpoonup> counter_row"
  spending_by_user_category :: "(string \<times> string) \<rightharpoonup> counter_row"
  merchant_statistics :: "string \<rightharpoonup> counter_row"
  payment_method_stats :: "string \<rightharpoonup> counter_row"

datatype dest =
    TransactionsByUser
  | TransactionsByCategory
  | HourlyTransactions
  | SpendingByCategory
  | SpendingByUserCategory
  | MerchantStatistics
  | PaymentMethodStats

definition DEMO_USER_ID :: string where
  "DEMO_USER_ID = ''User_1''"

text \<open>
  \<^verbatim>\<open>UPDATE t SET total_amount = total_amount + %s,
     transaction_count = transaction_count + 1 WHERE key = %s\<close>
\<close>

definition add_counter :: "'k \<Rightarrow> int \<Rightarrow> ('k \<rightharpoonup> counter_row) \<Rightarrow> ('k \<rightharpoonup> counter_row)" where
  "add_counter k inc t =
     t(k \<mapsto> (case t k of
               None \<Rightarrow> \<lparr>total_amount = inc, transaction_count = 1\<rparr>
             | Some r \<Rightarrow> \<lparr>total_amount = total_amount r + inc,
                          transaction_count = transaction_count r + 1\<rparr>))"

definition stored_total :: "('k \<rightharpoonup> counter_row) \<Rightarrow> 'k \<Rightarrow> int" where
  "stored_total t k = (case t k of None \<Rightarrow> 0 | Some r \<Rightarrow> total_amount r)"

definition stored_count :: "('k \<rightharpoonup> counter_row) \<Rightarrow> 'k \<Rightarrow> int" where
  "stored_count t k = (case t k of None \<Rightarrow> 0 | Some r \<Rightarrow> transaction_count r)"

section \<open>The streaming loop\<close>

text \<open>
  The state the loop works on: the tables, the sequence of \<^verbatim>\<open>session.execute\<close> calls
  made so far (by the table each addresses), and the script's running
  \<^verbatim>\<open>transaction_count\<close>, here \<open>txn_count\<close>.
\<close>

record state =
  tables :: db
  executed :: "dest list"
  txn_count :: nat

text \<open>
  A statement either raises an exception or returns; in both cases the state it
  leaves is kept, as Python keeps every effect made before an exception.
\<close>

definition and_then :: "exn option \<times> state \<Rightarrow> (state \<Rightarrow> exn option \<times> state) \<Rightarrow> exn option \<times> state" where
  "and_then r f = (case r of (None, s) \<Rightarrow> f s | (Some e, s) \<Rightarrow> (Some e, s))"

text \<open>
  \<^verbatim>\<open>session.execute\<close> on table \<open>d\<close>: the call is made; it raises when the table is
  failing (\<open>fails d\<close>), and applies the statement otherwise.
\<close>

definition execute :: "(dest \<Rightarrow> bool) \<Rightarrow> dest \<Rightarrow> (db \<Rightarrow> db) \<Rightarrow> state \<Rightarrow> exn option \<times> state" where
  "execute fails d stmt s =
     (let s' = s\<lparr>executed := executed s @ [d]\<rparr>
      in if fails d then (Some DriverError, s')
         else (None, s'\<lparr>tables := stmt (tables s')\<rparr>))"

text \<open>
  A counter update: the argument \<^verbatim>\<open>int(amount * 100)\<close> is evaluated first, and an
  exception there leaves the call unmade.
\<close>

definition update_counter ::
    "(dest \<Rightarrow> bool) \<Rightarrow> dest \<Rightarrow> pyfloat \<Rightarrow> (int \<Rightarrow> db \<Rightarrow> db) \<Rightarrow> state \<Rightarrow> exn option \<times> state" where
  "update_counter fails d amount stmt s =
     (case minor_units amount of
        Inl e \<Rightarrow> (Some e, s)
      | Inr cents \<Rightarrow> execute fails d (stmt cents) s)"

text \<open>Lines 305 to 348: the seven writes of one transaction, in the script's order.\<close>

definition write_all_tables ::
    "(dest \<Rightarrow> bool) \<Rightarrow> datetime \<Rightarrow> nat \<Rightarrow> pyfloat \<Rightarrow> string \<Rightarrow> string \<Rightarrow> string \<Rightarrow> string
       \<Rightarrow> state \<Rightarrow> exn option \<times> state" where
  "write_all_tables fails txn_time txn_id amount category merchant payment_method hour_bucket s =
     and_then (execute fails TransactionsByUser
        (\<lambda>t. t\<lparr>transactions_by_user := transactions_by_user t @
           [\<lparr>tu_user_id = DEMO_USER_ID, tu_transaction_time = txn_time,
             tu_transaction_id = txn_id, tu_amount = amount, tu_category = category,
             tu_merchant = merchant, tu_payment_method = payment_method\<rparr>]\<rparr>) s) (\<lambda>s.
     and_then (execute fails TransactionsByCategory
        (\<lambda>t. t\<lparr>transactions_by_category := transactions_by_category t @
           [\<lparr>tc_user_id = DEMO_USER_ID, tc_category = category,
             tc_transaction_time = txn_time, tc_transaction_id = txn_id,
             tc_amount = amount, tc_merchant = merchant\<rparr>]\<rparr>) s) (\<lambda>s.
     and_then (execute fails HourlyTransactions
        (\<lambda>t. t\<lparr>hourly_transactions := hourly_transactions t @
           [\<lparr>ht_hour_bucket = hour_bucket, ht_transaction_time = txn_time,
             ht_transaction_id = txn_id, ht_user_id = DEMO_USER_ID,
             ht_amount = amount, ht_category = category\<rparr>]\<rparr>) s) (\<lambda>s.
     and_then (update_counter fails SpendingByCategory amount
        (\<lambda>cents t. t\<lparr>spending_by_category :=
           add_counter category cents (spending_by_category t)\<rparr>) s) (\<lambda>s.
     and_then (update_counter fails SpendingByUserCategory amount
        (\<lambda>cents t. t\<lparr>spending_by_user_category :=
           add_counter (DEMO_USER_ID, category) cents (spending_by_user_category t)\<rparr>) s) (\<lambda>s.
     and_then (update_counter fails MerchantStatistics amount
        (\<lambda>cents t. t\<lparr>merchant_statistics :=
           add_counter merchant cents (merchant_statistics t)\<rparr>) s) (\<lambda>s.
     update_counter fails PaymentMethodStats amount
        (\<lambda>cents t. t\<lparr>payment_method_stats :=
           add_counter payment_method cents (payment_method_stats t)\<rparr>) s))))))"

text \<open>
  What one pass of the loop takes from outside the program: the index behind
  \<^verbatim>\<open>random.choice\<close>, the clock, the fresh identifier, which tables fail during this
  pass, and whether Ctrl-C arrives (taken at \<^verbatim>\<open>time.sleep\<close>, where the loop waits).
\<close>

record iteration_env =
  pick :: nat
  now :: datetime
  uuid4 :: nat
  fails :: "dest \<Rightarrow> bool"
  interrupt :: bool

text \<open>\<^verbatim>\<open>random.choice(seq)\<close> raises \<^verbatim>\<open>IndexError\<close> on an empty sequence.\<close>

definition choice :: "'a list \<Rightarrow> nat \<Rightarrow> exn + 'a" where
  "choice seq k = (if seq = [] then Inl IndexError else Inr (seq ! (k mod length seq)))"

text \<open>
  Lines 295 to 367: one pass of \<^verbatim>\<open>while True\<close>. The progress lines it prints are
  left out.
\<close>

definition iteration :: "row list \<Rightarrow> iteration_env \<Rightarrow> state \<Rightarrow> exn option \<times> state" where
  "iteration all_transactions env s =
     (case choice all_transactions (pick env) of
        Inl e \<Rightarrow> (Some e, s)
      | Inr r \<Rightarrow>
          (case py_float (row_amount r) of
             Inl e \<Rightarrow> (Some e, s)
           | Inr amt \<Rightarrow>
               and_then
                 (write_all_tables (fails env) (now env) (uuid4 env) amt (row_category r)
                    (clean_merchant (row_merchant r)) (row_payment_method r)
                    (get_hour_bucket (now env)) s)
                 (\<lambda>s. let s' = s\<lparr>txn_count := txn_count s + 1\<rparr>
                      in if interrupt env then (Some KeyboardInterrupt, s')
                         else (None, s'))))"

text \<open>
  Lines 293 to 392: \<^verbatim>\<open>try: while True: ... except KeyboardInterrupt: ...\<close>.
  Ctrl-C ends the loop in the handler (\<open>Stopped\<close>); any other exception leaves the
  \<^verbatim>\<open>try\<close> statement unhandled and ends the process (\<open>Crashed\<close>). The list holds the
  passes made so far: \<open>Running\<close> is a loop that has completed all of them and goes on.
\<close>

datatype outcome = Running state | Stopped state | Crashed exn state

fun stream :: "row list \<Rightarrow> iteration_env list \<Rightarrow> state \<Rightarrow> outcome" where
  "stream all_transactions [] s = Running s"
| "stream all_transactions (env # envs) s =
     (case iteration all_transactions env s of
        (None, s') \<Rightarrow> stream all_transactions envs s'
      | (Some e, s') \<Rightarrow> (if e = KeyboardInterrupt then Stopped s' else Crashed e s'))"

fun final_state :: "outcome \<Rightarrow> state" where
  "final_state (Running s) = s"
| "final_state (Stopped s) = s"
| "final_state (Crashed e s) = s"

text \<open>The seven tables, in the order in which a pass writes them.\<close>

definition all_dests :: "dest list" where
  "all_dests = [TransactionsByUser, TransactionsByCategory, HourlyTransactions,
     SpendingByCategory, SpendingByUserCategory, MerchantStatistics, PaymentMethodStats]"

text \<open>
  The tables a fan-out with a given amount can reach. The argument
  \<^verbatim>\<open>int(amount * 100)\<close> of the first counter update is evaluated after the three
  inserts; when it raises, no counter table is reached.
\<close>

definition reachable_dests :: "pyfloat \<Rightarrow> dest list" where
  "reachable_dests amount =
     (case minor_units amount of
        Inl e \<Rightarrow> [TransactionsByUser, TransactionsByCategory, HourlyTransactions]
      | Inr cents \<Rightarrow> all_dests)"


text \<open>
  The rows a sequence of passes draws from the working set, and the amount a pass
  adds to the counters for a row: \<^verbatim>\<open>int(float(row['amount']) * 100)\<close>.
\<close>

definition drawn :: "row list \<Rightarrow> iteration_env list \<Rightarrow> row list" where
  "drawn all_transactions envs =
     map (\<lambda>env. all_transactions ! (pick env mod length all_transactions)) envs"

definition increment :: "row \<Rightarrow> int" where
  "increment r =
     (case py_float (row_amount r) of
        Inl e \<Rightarrow> 0
      | Inr amt \<Rightarrow> (case minor_units amt of Inl e \<Rightarrow> 0 | Inr cents \<Rightarrow> cents))"

text \<open>The tables are dropped and created empty before the loop starts.\<close>

definition empty_db :: db where
  "empty_db = \<lparr>transactions_by_user = [], transactions_by_category = [],
     hourly_transactions = [], spending_by_category = Map.empty,
     spending_by_user_category = Map.empty, merchant_statistics = Map.empty,
     payment_method_stats = Map.empty\<rparr>"

definition initial_state :: state where
  "initial_state = \<lparr>tables = empty_db, executed = [], txn_count = 0\<rparr>"

text \<open>Steps 5 and 6 together: load the data, then stream.\<close>

datatype run = LoadFailed exn | Streamed outcome

definition generator :: "path_state \<Rightarrow> int \<Rightarrow> (nat \<Rightarrow> nat) \<Rightarrow> iteration_env list \<Rightarrow> run" where
  "generator path cap draw envs =
     (case load_data path cap draw of
        Inl e \<Rightarrow> LoadFailed e
      | Inr all_transactions \<Rightarrow> Streamed (stream all_transactions envs initial_state))"

text \<open>
  The \<open>w\<close> low-order decimal digits of \<open>n\<close>: what \<open>zero_pad w n\<close> is for
  \<open>n < 10^w\<close>. Used to reason about the fixed-width fields of a label.
\<close>

fun fixed_digits :: "nat \<Rightarrow> nat \<Rightarrow> string" where
  "fixed_digits 0 n = []"
| "fixed_digits (Suc w) n = fixed_digits w (n div 10) @ [digit (n mod 10)]"

section \<open>Example inputs\<close>

definition example_time :: datetime where
  "example_time = \<lparr>year = 2024, month = 5, day = 17, hour = 9, minute = 30,
     second = 0, microsecond = 0\<rparr>"

definition acme_row :: row where
  "acme_row = \<lparr>row_amount = Decimal 1000 2, row_category = ''grocery_pos'',
     row_merchant = ''fraud_Acme'', row_payment_method = ''credit_card''\<rparr>"

definition no_failure :: "dest \<Rightarrow> bool" where
  "no_failure d = False"

definition calm_env :: iteration_env where
  "calm_env = \<lparr>pick = 0, now = example_time, uuid4 = 1, fails = no_failure,
     interrupt = False\<rparr>"

definition gas_row :: row where
  "gas_row = \<lparr>row_amount = Decimal 2000 2, row_category = ''gas_transport'',
     row_merchant = ''Shell'', row_payment_method = ''debit_card''\<rparr>"

definition three_rows :: source_file where
  "three_rows = \<lparr>n_lines = 4, records = [acme_row, gas_row, acme_row]\<rparr>"

definition header_only :: source_file where
  "header_only = \<lparr>n_lines = 1, records = []\<rparr>"

definition draw_zero :: "nat \<Rightarrow> nat" where
  "draw_zero i = 0"




definition first_table_fails :: "dest \<Rightarrow> bool" where
  "first_table_fails d = (d = TransactionsByUser)"

definition counter_fails :: "dest \<Rightarrow> bool" where
  "counter_fails d = (d = SpendingByCategory)"



definition priced_row :: row where
  "priced_row = \<lparr>row_amount = Decimal 1999 2, row_category = ''grocery_pos'',
     row_merchant = ''fraud_Acme'', row_payment_method = ''credit_card''\<rparr>"

section \<open>Properties\<close>

lemma startswith_append [simp]: "startswith (p @ s) p"
  by (simp add: startswith_def)

lemma startswith_prefix: "startswith s p \<longleftrightarrow> (\<exists>t. s = p @ t)"
  unfolding startswith_def
  by (metis append_eq_conv_conj)

subsection \<open>Merchant cleaning\<close>

lemma clean_merchant_strip: "clean_merchant (''fraud_'' @ m) = m"
  by (simp add: clean_merchant_def startswith_def)

lemma clean_merchant_keep: "\<not> startswith m ''fraud_'' \<Longrightarrow> clean_merchant m = m"
  by (simp add: clean_merchant_def)

lemma write_all_tables_merchant:
  assumes "write_all_tables f t i a c m p h s = (e, s')"
  shows "(\<exists>new. transactions_by_user (tables s') = transactions_by_user (tables s) @ new
            \<and> (\<forall>x\<in>set new. tu_merchant x = m) \<and> (e = None \<longrightarrow> new \<noteq> []))
       \<and> (\<exists>new. transactions_by_category (tables s') = transactions_by_category (tables s) @ new
            \<and> (\<forall>x\<in>set new. tc_merchant x = m) \<and> (e = None \<longrightarrow> new \<noteq> []))
       \<and> (\<forall>k. merchant_statistics (tables s') k \<noteq> merchant_statistics (tables s) k \<longrightarrow> k = m)
       \<and> (e = None \<longrightarrow> merchant_statistics (tables s') m \<noteq> None)"
  using assms
  unfolding write_all_tables_def and_then_def execute_def update_counter_def add_counter_def Let_def
  by (auto split: if_splits sum.splits)

lemma iteration_writes:
  assumes "choice ws (pick env) = Inr r" and "iteration ws env s = (e, s')"
  shows "\<exists>amt e1 s1. py_float (row_amount r) = Inr amt
           \<and> write_all_tables (fails env) (now env) (uuid4 env) amt (row_category r)
                (clean_merchant (row_merchant r)) (row_payment_method r)
                (get_hour_bucket (now env)) s = (e1, s1)
           \<and> tables s' = tables s1 \<and> executed s' = executed s1
           \<and> (e = None \<longrightarrow> e1 = None)
         \<or> (\<exists>x. py_float (row_amount r) = Inl x) \<and> s' = s \<and> e \<noteq> None"
  using assms
  unfolding iteration_def and_then_def Let_def
  by (auto split: sum.splits option.splits if_splits prod.splits)

text \<open>
  C8. In every pass of the loop, for the row \<open>r\<close> drawn from the working set, the
  merchant value \<open>stored\<close> is the source merchant without the prefix \<^verbatim>\<open>fraud_\<close> when
  the source merchant starts with it, and the source merchant itself when it does
  not; every row the pass appends to \<^verbatim>\<open>transactions_by_user\<close> and to
  \<^verbatim>\<open>transactions_by_category\<close> carries \<open>stored\<close> as its merchant, the only key of
  \<^verbatim>\<open>merchant_statistics\<close> the pass changes is \<open>stored\<close>, and a pass that completes
  has written all three.
\<close>

theorem stored_merchant_is_cleaned:
  assumes "choice all_transactions (pick env) = Inr r"
    and "iteration all_transactions env s = (e, s')"
  shows "\<exists>stored.
           (\<forall>t. row_merchant r = ''fraud_'' @ t \<longrightarrow> stored = t)
         \<and> (\<not> startswith (row_merchant r) ''fraud_'' \<longrightarrow> stored = row_merchant r)
         \<and> (\<exists>new. transactions_by_user (tables s') = transactions_by_user (tables s) @ new
               \<and> (\<forall>x\<in>set new. tu_merchant x = stored) \<and> (e = None \<longrightarrow> new \<noteq> []))
         \<and> (\<exists>new. transactions_by_category (tables s')
                      = transactions_by_category (tables s) @ new
               \<and> (\<forall>x\<in>set new. tc_merchant x = stored) \<and> (e = None \<longrightarrow> new \<noteq> []))
         \<and> (\<forall>k. merchant_statistics (tables s') k \<noteq> merchant_statistics (tables s) k
                 \<longrightarrow> k = stored)
         \<and> (e = None \<longrightarrow> merchant_statistics (tables s') stored \<noteq> None)"
proof -
  let ?m = "clean_merchant (row_merchant r)"
  have strip: "\<forall>t. row_merchant r = ''fraud_'' @ t \<longrightarrow> ?m = t"
    using clean_merchant_strip by metis
  have keep: "\<not> startswith (row_merchant r) ''fraud_'' \<longrightarrow> ?m = row_merchant r"
    by (simp add: clean_merchant_keep)
  from iteration_writes [OF assms]
  consider (wrote) amt e1 s1 where
      "write_all_tables (fails env) (now env) (uuid4 env) amt (row_category r) ?m
         (row_payment_method r) (get_hour_bucket (now env)) s = (e1, s1)"
      "tables s' = tables s1" "e = None \<longrightarrow> e1 = None"
    | (raised) "s' = s" "e \<noteq> None"
    by blast
  then have "(\<exists>new. transactions_by_user (tables s') = transactions_by_user (tables s) @ new
               \<and> (\<forall>x\<in>set new. tu_merchant x = ?m) \<and> (e = None \<longrightarrow> new \<noteq> []))
         \<and> (\<exists>new. transactions_by_category (tables s')
                      = transactions_by_category (tables s) @ new
               \<and> (\<forall>x\<in>set new. tc_merchant x = ?m) \<and> (e = None \<longrightarrow> new \<noteq> []))
         \<and> (\<forall>k. merchant_statistics (tables s') k \<noteq> merchant_statistics (tables s) k
                 \<longrightarrow> k = ?m)
         \<and> (e = None \<longrightarrow> merchant_statistics (tables s') ?m \<noteq> None)"
  proof cases
    case wrote
    from write_all_tables_merchant [OF wrote(1)] wrote(2,3) show ?thesis
      by auto
  next
    case raised
    then show ?thesis by auto
  qed
  with strip keep show ?thesis by blast
qed

lemma acme_choice: "choice [acme_row] (pick calm_env) = Inr acme_row"
  by (simp add: choice_def)

lemma acme_minor_units: "minor_units (round_binary64 10) = Inr 1000"
  by code_simp

lemma acme_pass_completes: "fst (iteration [acme_row] calm_env initial_state) = None"
  using acme_minor_units
  by (simp add: iteration_def choice_def acme_row_def calm_env_def no_failure_def
      write_all_tables_def and_then_def execute_def update_counter_def Let_def)

theorem stored_merchant_is_cleaned_witness:
  "choice [acme_row] (pick calm_env) = Inr acme_row
   \<and> map tu_merchant (transactions_by_user (tables (snd (iteration [acme_row] calm_env initial_state))))
       = [''Acme'']
   \<and> map tc_merchant (transactions_by_category (tables (snd (iteration [acme_row] calm_env initial_state))))
       = [''Acme'']
   \<and> merchant_statistics (tables (snd (iteration [acme_row] calm_env initial_state))) ''Acme'' \<noteq> None"
proof -
  let ?s' = "snd (iteration [acme_row] calm_env initial_state)"
  have run: "iteration [acme_row] calm_env initial_state = (None, ?s')"
    using acme_pass_completes by (metis prod.collapse)
  from stored_merchant_is_cleaned [OF acme_choice run]
  obtain stored new1 new2 where
    st: "\<forall>t. row_merchant acme_row = ''fraud_'' @ t \<longrightarrow> stored = t"
    and u: "transactions_by_user (tables ?s') = transactions_by_user (tables initial_state) @ new1"
      "\<forall>x\<in>set new1. tu_merchant x = stored"
    and c: "transactions_by_category (tables ?s') = transactions_by_category (tables initial_state) @ new2"
      "\<forall>x\<in>set new2. tc_merchant x = stored"
    and m: "merchant_statistics (tables ?s') stored \<noteq> None"
    by auto
  have "row_merchant acme_row = ''fraud_'' @ ''Acme''"
    by (simp add: acme_row_def)
  with st have stored: "stored = ''Acme''" by blast
  have lu: "length (transactions_by_user (tables ?s')) = 1"
    and lc: "length (transactions_by_category (tables ?s')) = 1"
    using acme_minor_units
    by (simp_all add: iteration_def choice_def acme_row_def calm_env_def no_failure_def
        write_all_tables_def and_then_def execute_def update_counter_def Let_def
        initial_state_def empty_db_def)
  from lu u stored have "map tu_merchant (transactions_by_user (tables ?s')) = [''Acme'']"
    by (cases "transactions_by_user (tables ?s')") (auto simp: initial_state_def empty_db_def)
  moreover from lc c stored
  have "map tc_merchant (transactions_by_category (tables ?s')) = [''Acme'']"
    by (cases "transactions_by_category (tables ?s')") (auto simp: initial_state_def empty_db_def)
  ultimately show ?thesis using acme_choice m stored by simp
qed

subsection \<open>The data loading step\<close>

lemma reservoir_fill:
  "int (i + length rs) \<le> cap \<Longrightarrow> reservoir cap draw i rs ws = Inr (ws @ rs)"
  by (induction rs arbitrary: i ws) (simp_all add: sample_step_def)

lemma sample_step_cases:
  assumes "0 \<le> cap" and "length ws = min i (nat cap)"
  shows "\<exists>ws'. sample_step cap draw i r ws = Inr ws'
           \<and> length ws' = min (Suc i) (nat cap)
           \<and> (int i < cap \<longrightarrow> ws' = ws @ [r])
           \<and> (cap \<le> int i \<longrightarrow> ws' = ws \<or> (\<exists>j<length ws. ws' = ws[j := r]))"
proof (cases "int i < cap")
  case True
  with assms show ?thesis by (simp add: sample_step_def min_def)
next
  case False
  then have "nat cap \<le> i" using assms(1) by linarith
  with assms(2) have len: "length ws = nat cap" by simp
  show ?thesis
  proof (cases "int (draw i mod Suc i) < cap")
    case True
    with len assms(1) have "draw i mod Suc i < length ws" by linarith
    with False True len show ?thesis
      by (auto simp: sample_step_def Let_def min_def)
  next
    case nodraw: False
    with False len show ?thesis
      by (auto simp: sample_step_def Let_def min_def)
  qed
qed

lemma reservoir_inv:
  assumes "0 \<le> cap"
  shows "length ws = min i (nat cap) \<Longrightarrow>
         \<exists>ws'. reservoir cap draw i rs ws = Inr ws' \<and> length ws' = min (i + length rs) (nat cap)"
proof (induction rs arbitrary: i ws)
  case Nil
  then show ?case by simp
next
  case (Cons r rs)
  from sample_step_cases [OF assms Cons.prems, of draw r]
  obtain w where w: "sample_step cap draw i r ws = Inr w" "length w = min (Suc i) (nat cap)"
    by blast
  from Cons.IH [OF w(2)] w(1) show ?case by simp
qed

lemma reservoir_snoc:
  "reservoir cap draw i (xs @ [r]) ws =
     (case reservoir cap draw i xs ws of
        Inl e \<Rightarrow> Inl e
      | Inr w \<Rightarrow> sample_step cap draw (i + length xs) r w)"
  by (induction xs arbitrary: i ws) (auto split: sum.splits)

text \<open>
  C5. When the source yields no more records than the capacity, the working set is
  the whole list of records, in the order of the source, whatever the line count
  and the random draws.
\<close>

theorem small_source_kept_whole:
  assumes "int (length (records f)) \<le> cap"
  shows "load_data (Readable f) cap draw = Inr (records f)"
  using assms reservoir_fill [of 0 "records f" cap draw "[]"]
  by (simp add: load_data_def Let_def)

theorem small_source_kept_whole_witness:
  "int (length (records three_rows)) \<le> 5
   \<and> load_data (Readable three_rows) 5 draw_zero = Inr [acme_row, gas_row, acme_row]"
  using small_source_kept_whole [of three_rows 5 draw_zero]
  by (simp add: three_rows_def)

text \<open>
  C6. For a capacity \<open>cap \<ge> 0\<close> the load returns a working set of at most \<open>cap\<close>
  records. In the sampling loop the working set after any number \<open>k\<close> of records
  holds at most \<open>cap\<close> records, and record \<open>k\<close> is appended when \<open>k < cap\<close> and
  otherwise overwrites one existing slot or is dropped.
\<close>

theorem working_set_bounded:
  assumes "0 \<le> cap" and "wf_source f"
  shows "(\<exists>ws. load_data (Readable f) cap draw = Inr ws \<and> int (length ws) \<le> cap)
       \<and> (\<forall>k. \<exists>ws. reservoir cap draw 0 (take k (records f)) [] = Inr ws
              \<and> int (length ws) \<le> cap
              \<and> (k < length (records f) \<longrightarrow>
                   (\<exists>ws'. reservoir cap draw 0 (take (Suc k) (records f)) [] = Inr ws'
                      \<and> sample_step cap draw k (records f ! k) ws = Inr ws'
                      \<and> int (length ws') \<le> cap
                      \<and> (int k < cap \<longrightarrow> ws' = ws @ [records f ! k])
                      \<and> (cap \<le> int k \<longrightarrow>
                            ws' = ws \<or> (\<exists>j<length ws. ws' = ws[j := records f ! k])))))"
proof (intro conjI allI)
  show "\<exists>ws. load_data (Readable f) cap draw = Inr ws \<and> int (length ws) \<le> cap"
  proof (cases "cap < int (n_lines f) - 1")
    case True
    from reservoir_inv [OF assms(1), of "[]" 0 draw "records f"]
    obtain ws where "reservoir cap draw 0 (records f) [] = Inr ws"
      "length ws = min (length (records f)) (nat cap)" by auto
    with True assms(1) show ?thesis
      by (auto simp: load_data_def Let_def)
  next
    case False
    with assms have "int (length (records f)) \<le> cap"
      by (auto simp: wf_source_def split: if_splits)
    with False show ?thesis by (simp add: load_data_def Let_def)
  qed
next
  fix k
  let ?rs = "records f"
  from reservoir_inv [OF assms(1), of "[]" 0 draw "take k ?rs"]
  obtain ws where ws: "reservoir cap draw 0 (take k ?rs) [] = Inr ws"
    "length ws = min (length (take k ?rs)) (nat cap)" by auto
  have bound: "int (length ws) \<le> cap" using ws(2) assms(1) by linarith
  have step: "\<exists>ws'. reservoir cap draw 0 (take (Suc k) ?rs) [] = Inr ws'
                      \<and> sample_step cap draw k (?rs ! k) ws = Inr ws'
                      \<and> int (length ws') \<le> cap
                      \<and> (int k < cap \<longrightarrow> ws' = ws @ [?rs ! k])
                      \<and> (cap \<le> int k \<longrightarrow>
                            ws' = ws \<or> (\<exists>j<length ws. ws' = ws[j := ?rs ! k]))"
    if k: "k < length ?rs"
  proof -
    from k ws(2) have len: "length ws = min k (nat cap)" by simp
    from sample_step_cases [OF assms(1) len, of draw "?rs ! k"]
    obtain ws' where ws': "sample_step cap draw k (?rs ! k) ws = Inr ws'"
      "length ws' = min (Suc k) (nat cap)"
      "int k < cap \<longrightarrow> ws' = ws @ [?rs ! k]"
      "cap \<le> int k \<longrightarrow> ws' = ws \<or> (\<exists>j<length ws. ws' = ws[j := ?rs ! k])"
      by blast
    have "take (Suc k) ?rs = take k ?rs @ [?rs ! k]"
      using k by (simp add: take_Suc_conv_app_nth)
    then have "reservoir cap draw 0 (take (Suc k) ?rs) [] = Inr ws'"
      using ws(1) ws'(1) k by (simp add: reservoir_snoc)
    moreover have "int (length ws') \<le> cap" using ws'(2) assms(1) by linarith
    ultimately show ?thesis using ws' by blast
  qed
  from ws(1) bound step
  show "\<exists>ws. reservoir cap draw 0 (take k ?rs) [] = Inr ws
              \<and> int (length ws) \<le> cap
              \<and> (k < length ?rs \<longrightarrow>
                   (\<exists>ws'. reservoir cap draw 0 (take (Suc k) ?rs) [] = Inr ws'
                      \<and> sample_step cap draw k (?rs ! k) ws = Inr ws'
                      \<and> int (length ws') \<le> cap
                      \<and> (int k < cap \<longrightarrow> ws' = ws @ [?rs ! k])
                      \<and> (cap \<le> int k \<longrightarrow>
                            ws' = ws \<or> (\<exists>j<length ws. ws' = ws[j := ?rs ! k]))))"
    by blast
qed

theorem working_set_bounded_witness:
  "(0::int) \<le> 2 \<and> wf_source three_rows
   \<and> (\<exists>ws. load_data (Readable three_rows) 2 draw_zero = Inr ws \<and> int (length ws) \<le> 2)"
  using working_set_bounded [of 2 three_rows draw_zero]
  by (simp add: wf_source_def three_rows_def)

text \<open>
  C4, as the code has it. A missing source file ends the process with
  \<^verbatim>\<open>exit(1)\<close> during loading, and a file that cannot be opened ends it with the
  exception of \<^verbatim>\<open>open\<close>. A source without records does not fail the load:
  the working set is empty, and the first pass of the streaming loop ends the
  process with \<^verbatim>\<open>IndexError\<close> from \<^verbatim>\<open>random.choice\<close>, before any table is written.
\<close>

theorem load_failures:
  "load_data Absent cap draw = Inl (SystemExit 1)
   \<and> load_data Unreadable cap draw = Inl OSError
   \<and> (records f = [] \<longrightarrow>
        load_data (Readable f) cap draw = Inr []
        \<and> generator (Readable f) cap draw (env # envs)
            = Streamed (Crashed IndexError initial_state)
        \<and> executed initial_state = [])"
proof -
  have "load_data (Readable f) cap draw = Inr []" if "records f = []"
    using that by (simp add: load_data_def Let_def)
  then show ?thesis
    by (simp add: load_data_def generator_def iteration_def choice_def initial_state_def)
qed

theorem load_failures_witness:
  "records header_only = []
   \<and> load_data (Readable header_only) 50000 draw_zero = Inr []
   \<and> generator (Readable header_only) 50000 draw_zero [calm_env]
       = Streamed (Crashed IndexError initial_state)"
  using load_failures [of 50000 draw_zero header_only calm_env "[]"]
  by (simp add: header_only_def)

text \<open>
  Against C4 as stated: a file that holds only the header line loads without an
  error, as the empty working set.
\<close>

theorem empty_source_loads:
  "load_data (Readable header_only) 50000 draw_zero = Inr []"
  by (simp add: load_data_def header_only_def)

subsection \<open>The hour bucket\<close>

lemma length_fixed_digits [simp]: "length (fixed_digits w n) = w"
  by (induction w arbitrary: n) simp_all




lemma length_digits: "n < 10 ^ w \<Longrightarrow> 0 < w \<Longrightarrow> length (digits n) \<le> w"
proof (induction w arbitrary: n)
  case 0
  then show ?case by simp
next
  case (Suc w)
  show ?case
  proof (cases "n < 10")
    case True
    then show ?thesis by (simp add: digits.simps [of n])
  next
    case False
    then have w: "0 < w" using Suc.prems(1) by (cases w) auto
    have "n div 10 < 10 ^ w" using Suc.prems(1) by (simp add: less_mult_imp_div_less mult.commute)
    from Suc.IH [OF this w] False show ?thesis
      by (simp add: digits.simps [of n])
  qed
qed









lemma get_hour_bucket_example: "get_hour_bucket example_time = ''2024-05-17-09''"
  by code_simp






lemma write_all_tables_hourly:
  assumes "write_all_tables f t i a c m p h s = (e, s')"
  shows "\<exists>new. hourly_transactions (tables s') = hourly_transactions (tables s) @ new
            \<and> (\<forall>x\<in>set new. ht_hour_bucket x = h) \<and> (e = None \<longrightarrow> new \<noteq> [])"
  using assms
  unfolding write_all_tables_def and_then_def execute_def update_counter_def Let_def
  by (auto split: if_splits sum.splits)

text \<open>
  C10. The label the generator computes for a timestamp is the key the dashboard
  computes for the same timestamp, and every row a pass of the generator appends to
  \<^verbatim>\<open>hourly_transactions\<close> at clock reading \<open>now env\<close> lies in the partition the
  dashboard reads at that clock reading.
\<close>

theorem writer_and_reader_agree:
  assumes "iteration all_transactions env s = (e, s')"
  shows "get_hour_bucket t = current_hour t
       \<and> (\<exists>new. hourly_transactions (tables s') = hourly_transactions (tables s) @ new
             \<and> (\<forall>x\<in>set new. ht_hour_bucket x = current_hour (now env))
             \<and> (e = None \<longrightarrow> new \<noteq> []))"
proof
  show "get_hour_bucket t = current_hour t"
    by (simp add: get_hour_bucket_def current_hour_def)
next
  have key: "get_hour_bucket (now env) = current_hour (now env)"
    by (simp add: get_hour_bucket_def current_hour_def)
  show "\<exists>new. hourly_transactions (tables s') = hourly_transactions (tables s) @ new
             \<and> (\<forall>x\<in>set new. ht_hour_bucket x = current_hour (now env))
             \<and> (e = None \<longrightarrow> new \<noteq> [])"
  proof (cases "choice all_transactions (pick env)")
    case (Inl x)
    with assms show ?thesis by (auto simp: iteration_def)
  next
    case (Inr r)
    from iteration_writes [OF Inr assms]
    consider (wrote) amt e1 s1 where
        "write_all_tables (fails env) (now env) (uuid4 env) amt (row_category r)
           (clean_merchant (row_merchant r)) (row_payment_method r)
           (get_hour_bucket (now env)) s = (e1, s1)"
        "tables s' = tables s1" "e = None \<longrightarrow> e1 = None"
      | (raised) "s' = s" "e \<noteq> None"
      by blast
    then show ?thesis
    proof cases
      case wrote
      from write_all_tables_hourly [OF wrote(1)] wrote(2,3) key show ?thesis
        by auto
    next
      case raised
      then show ?thesis by auto
    qed
  qed
qed

theorem writer_and_reader_agree_witness:
  "get_hour_bucket example_time = current_hour example_time
   \<and> hourly_transactions (tables (snd (iteration [acme_row] calm_env initial_state))) \<noteq> []
   \<and> set (map ht_hour_bucket
        (hourly_transactions (tables (snd (iteration [acme_row] calm_env initial_state)))))
      = {current_hour example_time}"
proof -
  let ?s' = "snd (iteration [acme_row] calm_env initial_state)"
  have run: "iteration [acme_row] calm_env initial_state = (None, ?s')"
    using acme_pass_completes by (metis prod.collapse)
  from writer_and_reader_agree [OF run, of example_time]
  obtain new where k: "get_hour_bucket example_time = current_hour example_time"
    and h: "hourly_transactions (tables ?s') = hourly_transactions (tables initial_state) @ new"
    and b: "\<forall>x\<in>set new. ht_hour_bucket x = current_hour (now calm_env)"
    and n: "new \<noteq> []"
    by auto
  have "hourly_transactions (tables initial_state) = []"
    by (simp add: initial_state_def empty_db_def)
  with h have eq: "hourly_transactions (tables ?s') = new" by simp
  have "now calm_env = example_time" by (simp add: calm_env_def)
  with b n have "set (map ht_hour_bucket new) = {current_hour example_time}"
    by (cases new) auto
  with k n eq show ?thesis by simp
qed

subsection \<open>Failures during the fan-out\<close>

lemma update_counter_ok:
  "minor_units amount = Inr cents \<Longrightarrow>
   update_counter f d amount stmt s = execute f d (stmt cents) s"
  by (simp add: update_counter_def)

lemma write_all_tables_trace:
  assumes "minor_units amount = Inr cents"
  shows "executed (snd (write_all_tables f t i amount c m p h s))
           = executed s @ takeWhile (\<lambda>d. \<not> f d) all_dests
               @ take 1 (dropWhile (\<lambda>d. \<not> f d) all_dests)"
    and "fst (write_all_tables f t i amount c m p h s)
           = (if \<exists>d\<in>set all_dests. f d then Some DriverError else None)"
    and "txn_count (snd (write_all_tables f t i amount c m p h s)) = txn_count s"
  unfolding write_all_tables_def and_then_def update_counter_ok [OF assms] execute_def
    all_dests_def Let_def
  by simp_all

lemma update_counter_raises:
  "minor_units amount = Inl e \<Longrightarrow> update_counter f d amount stmt s = (Some e, s)"
  by (simp add: update_counter_def)

lemma write_all_tables_trace_general:
  "executed (snd (write_all_tables f t i amount c m p h s))
     = executed s @ takeWhile (\<lambda>d. \<not> f d) (reachable_dests amount)
         @ take 1 (dropWhile (\<lambda>d. \<not> f d) (reachable_dests amount))"
  "fst (write_all_tables f t i amount c m p h s)
     = (if \<exists>d\<in>set (reachable_dests amount). f d then Some DriverError
        else (case minor_units amount of Inl e \<Rightarrow> Some e | Inr cents \<Rightarrow> None))"
  "txn_count (snd (write_all_tables f t i amount c m p h s)) = txn_count s"
proof -
  show "executed (snd (write_all_tables f t i amount c m p h s))
     = executed s @ takeWhile (\<lambda>d. \<not> f d) (reachable_dests amount)
         @ take 1 (dropWhile (\<lambda>d. \<not> f d) (reachable_dests amount))"
  proof (cases "minor_units amount")
    case (Inl e)
    then show ?thesis
      unfolding write_all_tables_def and_then_def update_counter_raises [OF Inl] execute_def
        reachable_dests_def Let_def
      by simp
  next
    case (Inr cents)
    with write_all_tables_trace(1) [OF Inr] show ?thesis
      by (simp add: reachable_dests_def)
  qed
  show "fst (write_all_tables f t i amount c m p h s)
     = (if \<exists>d\<in>set (reachable_dests amount). f d then Some DriverError
        else (case minor_units amount of Inl e \<Rightarrow> Some e | Inr cents \<Rightarrow> None))"
  proof (cases "minor_units amount")
    case (Inl e)
    then show ?thesis
      unfolding write_all_tables_def and_then_def update_counter_raises [OF Inl] execute_def
        reachable_dests_def Let_def
      by simp
  next
    case (Inr cents)
    with write_all_tables_trace(2) [OF Inr] show ?thesis
      by (simp add: reachable_dests_def)
  qed
  show "txn_count (snd (write_all_tables f t i amount c m p h s)) = txn_count s"
  proof (cases "minor_units amount")
    case (Inl e)
    then show ?thesis
      unfolding write_all_tables_def and_then_def update_counter_raises [OF Inl] execute_def
        Let_def
      by simp
  next
    case (Inr cents)
    then show ?thesis by (rule write_all_tables_trace(3))
  qed
qed

lemma all_seven_attempted:
  "takeWhile (\<lambda>d. \<not> f d) (reachable_dests amount)
     @ take 1 (dropWhile (\<lambda>d. \<not> f d) (reachable_dests amount)) = all_dests
   \<longleftrightarrow> (\<exists>cents. minor_units amount = Inr cents) \<and> (\<forall>d\<in>set (butlast all_dests). \<not> f d)"
proof (cases "minor_units amount")
  case (Inl e)
  then show ?thesis by (simp add: reachable_dests_def all_dests_def)
next
  case (Inr cents)
  then show ?thesis by (simp add: reachable_dests_def all_dests_def)
qed

lemma attempted_distinct:
  "distinct (takeWhile (\<lambda>d. \<not> f d) (reachable_dests amount)
     @ take 1 (dropWhile (\<lambda>d. \<not> f d) (reachable_dests amount)))"
proof (cases "minor_units amount")
  case (Inl e)
  then show ?thesis by (simp add: reachable_dests_def)
next
  case (Inr cents)
  then show ?thesis by (simp add: reachable_dests_def all_dests_def)
qed

text \<open>
  C2, as the code has it. The tables are attempted in the script's order, each at
  most once, and the first exception ends the fan-out: a write that fails, or the
  evaluation of \<^verbatim>\<open>int(amount * 100)\<close> ahead of the first counter update, after which
  no counter table is reached. The tables after that point are not attempted, and
  the outcome of the fan-out is that one exception, or success when nothing was
  raised. All seven tables are attempted, once each, exactly when
  \<^verbatim>\<open>int(amount * 100)\<close> has a value and none of the first six writes fails; the
  fan-out succeeds exactly when, besides, the seventh does not fail.
\<close>

theorem fan_out_stops_at_first_failure:
  "executed (snd (write_all_tables f t i amount c m p h s))
     = executed s @ takeWhile (\<lambda>d. \<not> f d) (reachable_dests amount)
         @ take 1 (dropWhile (\<lambda>d. \<not> f d) (reachable_dests amount))
   \<and> fst (write_all_tables f t i amount c m p h s)
     = (if \<exists>d\<in>set (reachable_dests amount). f d then Some DriverError
        else (case minor_units amount of Inl e \<Rightarrow> Some e | Inr cents \<Rightarrow> None))
   \<and> (executed (snd (write_all_tables f t i amount c m p h s)) = executed s @ all_dests
        \<longleftrightarrow> (\<exists>cents. minor_units amount = Inr cents)
            \<and> (\<forall>d\<in>set (butlast all_dests). \<not> f d))
   \<and> (fst (write_all_tables f t i amount c m p h s) = None
        \<longleftrightarrow> (\<exists>cents. minor_units amount = Inr cents) \<and> (\<forall>d\<in>set all_dests. \<not> f d))
   \<and> distinct (takeWhile (\<lambda>d. \<not> f d) (reachable_dests amount)
         @ take 1 (dropWhile (\<lambda>d. \<not> f d) (reachable_dests amount)))"
proof (intro conjI)
  show "distinct (takeWhile (\<lambda>d. \<not> f d) (reachable_dests amount)
         @ take 1 (dropWhile (\<lambda>d. \<not> f d) (reachable_dests amount)))"
    by (rule attempted_distinct)
  show "executed (snd (write_all_tables f t i amount c m p h s))
     = executed s @ takeWhile (\<lambda>d. \<not> f d) (reachable_dests amount)
         @ take 1 (dropWhile (\<lambda>d. \<not> f d) (reachable_dests amount))"
    by (rule write_all_tables_trace_general(1))
  show "fst (write_all_tables f t i amount c m p h s)
     = (if \<exists>d\<in>set (reachable_dests amount). f d then Some DriverError
        else (case minor_units amount of Inl e \<Rightarrow> Some e | Inr cents \<Rightarrow> None))"
    by (rule write_all_tables_trace_general(2))
  show "executed (snd (write_all_tables f t i amount c m p h s)) = executed s @ all_dests
        \<longleftrightarrow> (\<exists>cents. minor_units amount = Inr cents)
            \<and> (\<forall>d\<in>set (butlast all_dests). \<not> f d)"
    unfolding write_all_tables_trace_general(1) same_append_eq
    by (rule all_seven_attempted)
  show "fst (write_all_tables f t i amount c m p h s) = None
        \<longleftrightarrow> (\<exists>cents. minor_units amount = Inr cents) \<and> (\<forall>d\<in>set all_dests. \<not> f d)"
    unfolding write_all_tables_trace_general(2)
    by (cases "minor_units amount") (auto simp: reachable_dests_def)
qed

lemma acme_reachable: "reachable_dests (round_binary64 10) = all_dests"
  by (simp add: reachable_dests_def acme_minor_units)

theorem fan_out_stops_at_first_failure_witness:
  "minor_units (round_binary64 10) = Inr 1000
   \<and> executed (snd (write_all_tables counter_fails example_time 1 (round_binary64 10)
        ''grocery_pos'' ''Acme'' ''credit_card'' ''2024-05-17-09'' initial_state))
      = [TransactionsByUser, TransactionsByCategory, HourlyTransactions, SpendingByCategory]
   \<and> fst (write_all_tables counter_fails example_time 1 (round_binary64 10)
        ''grocery_pos'' ''Acme'' ''credit_card'' ''2024-05-17-09'' initial_state)
      = Some DriverError"
  using fan_out_stops_at_first_failure [of counter_fails example_time 1 "round_binary64 10"
      "''grocery_pos''" "''Acme''" "''credit_card''" "''2024-05-17-09''" initial_state]
  by (simp add: acme_reachable acme_minor_units all_dests_def counter_fails_def
      initial_state_def)

text \<open>
  Against C2 as stated: when the first table fails, it is the only one attempted.
\<close>

theorem first_failure_blocks_the_rest:
  "executed (snd (write_all_tables first_table_fails example_time 1 (Finite 10)
      ''grocery_pos'' ''Acme'' ''credit_card'' ''2024-05-17-09'' initial_state))
     = [TransactionsByUser]
   \<and> fst (write_all_tables first_table_fails example_time 1 (Finite 10)
      ''grocery_pos'' ''Acme'' ''credit_card'' ''2024-05-17-09'' initial_state)
     = Some DriverError"
  by (simp add: write_all_tables_def and_then_def execute_def first_table_fails_def
      initial_state_def)











subsection \<open>The counters\<close>







lemma stored_count_add_counter:
  "stored_count (add_counter k c t) k' = stored_count t k' + (if k' = k then 1 else 0)"
  by (simp add: stored_count_def add_counter_def split: option.splits)

lemma stored_total_add_counter:
  "stored_total (add_counter k c t) k' = stored_total t k' + (if k' = k then c else 0)"
  by (simp add: stored_total_def add_counter_def split: option.splits)














text \<open>
  What the counters hold after a run in which every pass completed: for each key,
  the count grew by the number of drawn rows carrying the key, and the total by the
  sum of their increments \<^verbatim>\<open>int(amount * 100)\<close>.
\<close>

lemma write_all_tables_completed:
  assumes "write_all_tables f t i a c m p h s = (None, s')"
  shows "\<exists>cents. minor_units a = Inr cents
     \<and> spending_by_category (tables s') = add_counter c cents (spending_by_category (tables s))
     \<and> spending_by_user_category (tables s')
         = add_counter (DEMO_USER_ID, c) cents (spending_by_user_category (tables s))
     \<and> merchant_statistics (tables s') = add_counter m cents (merchant_statistics (tables s))
     \<and> payment_method_stats (tables s') = add_counter p cents (payment_method_stats (tables s))"
  using assms
  unfolding write_all_tables_def and_then_def execute_def update_counter_def Let_def
  by (auto split: if_splits sum.splits)

lemma iteration_completed:
  assumes "iteration ws env s = (None, s')"
  shows "\<exists>r. r = ws ! (pick env mod length ws)
     \<and> spending_by_category (tables s')
         = add_counter (row_category r) (increment r) (spending_by_category (tables s))
     \<and> spending_by_user_category (tables s')
         = add_counter (DEMO_USER_ID, row_category r) (increment r)
             (spending_by_user_category (tables s))
     \<and> merchant_statistics (tables s')
         = add_counter (clean_merchant (row_merchant r)) (increment r)
             (merchant_statistics (tables s))
     \<and> payment_method_stats (tables s')
         = add_counter (row_payment_method r) (increment r) (payment_method_stats (tables s))"
proof (cases "choice ws (pick env)")
  case (Inl x)
  with assms show ?thesis by (simp add: iteration_def)
next
  case (Inr r)
  then have r: "r = ws ! (pick env mod length ws)"
    by (auto simp: choice_def split: if_splits)
  from iteration_writes [OF Inr assms]
  obtain amt e1 s1 where a: "py_float (row_amount r) = Inr amt"
    and w: "write_all_tables (fails env) (now env) (uuid4 env) amt (row_category r)
        (clean_merchant (row_merchant r)) (row_payment_method r)
        (get_hour_bucket (now env)) s = (e1, s1)"
    and t: "tables s' = tables s1" and e: "e1 = None"
    by auto
  from write_all_tables_completed [OF w [unfolded e]]
  obtain cents where "minor_units amt = Inr cents"
    and tabs: "spending_by_category (tables s1)
        = add_counter (row_category r) cents (spending_by_category (tables s))"
      "spending_by_user_category (tables s1)
        = add_counter (DEMO_USER_ID, row_category r) cents (spending_by_user_category (tables s))"
      "merchant_statistics (tables s1)
        = add_counter (clean_merchant (row_merchant r)) cents (merchant_statistics (tables s))"
      "payment_method_stats (tables s1)
        = add_counter (row_payment_method r) cents (payment_method_stats (tables s))"
    by blast
  with a have "increment r = cents" by (simp add: increment_def)
  with tabs t r show ?thesis by simp
qed

lemma stream_running:
  "stream ws (env # envs) s = Running s' \<Longrightarrow>
   \<exists>s1. iteration ws env s = (None, s1) \<and> stream ws envs s1 = Running s'"
  by (auto split: prod.splits option.splits if_splits)

lemma completed_run_category:
  "stream ws envs s = Running s' \<Longrightarrow>
   stored_count (spending_by_category (tables s')) k
     = stored_count (spending_by_category (tables s)) k
       + int (length (filter (\<lambda>r. row_category r = k) (drawn ws envs)))
   \<and> stored_total (spending_by_category (tables s')) k
     = stored_total (spending_by_category (tables s)) k
       + sum_list (map increment (filter (\<lambda>r. row_category r = k) (drawn ws envs)))"
proof (induction envs arbitrary: s)
  case Nil
  then show ?case by (simp add: drawn_def)
next
  case (Cons env envs)
  from stream_running [OF Cons.prems]
  obtain s1 where it: "iteration ws env s = (None, s1)" and rest: "stream ws envs s1 = Running s'"
    by blast
  from iteration_completed [OF it]
  have "spending_by_category (tables s1)
      = add_counter (row_category (ws ! (pick env mod length ws)))
          (increment (ws ! (pick env mod length ws))) (spending_by_category (tables s))"
    by simp
  with Cons.IH [OF rest] show ?case
    by (simp add: drawn_def stored_count_add_counter stored_total_add_counter)
qed

lemma completed_run_merchant:
  "stream ws envs s = Running s' \<Longrightarrow>
   stored_count (merchant_statistics (tables s')) k
     = stored_count (merchant_statistics (tables s)) k
       + int (length (filter (\<lambda>r. clean_merchant (row_merchant r) = k) (drawn ws envs)))
   \<and> stored_total (merchant_statistics (tables s')) k
     = stored_total (merchant_statistics (tables s)) k
       + sum_list (map increment
           (filter (\<lambda>r. clean_merchant (row_merchant r) = k) (drawn ws envs)))"
proof (induction envs arbitrary: s)
  case Nil
  then show ?case by (simp add: drawn_def)
next
  case (Cons env envs)
  from stream_running [OF Cons.prems]
  obtain s1 where it: "iteration ws env s = (None, s1)" and rest: "stream ws envs s1 = Running s'"
    by blast
  from iteration_completed [OF it]
  have "merchant_statistics (tables s1)
      = add_counter (clean_merchant (row_merchant (ws ! (pick env mod length ws))))
          (increment (ws ! (pick env mod length ws))) (merchant_statistics (tables s))"
    by simp
  with Cons.IH [OF rest] show ?case
    by (simp add: drawn_def stored_count_add_counter stored_total_add_counter)
qed

lemma completed_run_payment_method:
  "stream ws envs s = Running s' \<Longrightarrow>
   stored_count (payment_method_stats (tables s')) k
     = stored_count (payment_method_stats (tables s)) k
       + int (length (filter (\<lambda>r. row_payment_method r = k) (drawn ws envs)))
   \<and> stored_total (payment_method_stats (tables s')) k
     = stored_total (payment_method_stats (tables s)) k
       + sum_list (map increment (filter (\<lambda>r. row_payment_method r = k) (drawn ws envs)))"
proof (induction envs arbitrary: s)
  case Nil
  then show ?case by (simp add: drawn_def)
next
  case (Cons env envs)
  from stream_running [OF Cons.prems]
  obtain s1 where it: "iteration ws env s = (None, s1)" and rest: "stream ws envs s1 = Running s'"
    by blast
  from iteration_completed [OF it]
  have "payment_method_stats (tables s1)
      = add_counter (row_payment_method (ws ! (pick env mod length ws)))
          (increment (ws ! (pick env mod length ws))) (payment_method_stats (tables s))"
    by simp
  with Cons.IH [OF rest] show ?case
    by (simp add: drawn_def stored_count_add_counter stored_total_add_counter)
qed

lemma completed_run_user_category:
  "stream ws envs s = Running s' \<Longrightarrow>
   stored_count (spending_by_user_category (tables s')) (DEMO_USER_ID, k)
     = stored_count (spending_by_user_category (tables s)) (DEMO_USER_ID, k)
       + int (length (filter (\<lambda>r. row_category r = k) (drawn ws envs)))
   \<and> stored_total (spending_by_user_category (tables s')) (DEMO_USER_ID, k)
     = stored_total (spending_by_user_category (tables s)) (DEMO_USER_ID, k)
       + sum_list (map increment (filter (\<lambda>r. row_category r = k) (drawn ws envs)))"
proof (induction envs arbitrary: s)
  case Nil
  then show ?case by (simp add: drawn_def)
next
  case (Cons env envs)
  from stream_running [OF Cons.prems]
  obtain s1 where it: "iteration ws env s = (None, s1)" and rest: "stream ws envs s1 = Running s'"
    by blast
  from iteration_completed [OF it]
  have "spending_by_user_category (tables s1)
      = add_counter (DEMO_USER_ID, row_category (ws ! (pick env mod length ws)))
          (increment (ws ! (pick env mod length ws))) (spending_by_user_category (tables s))"
    by simp
  with Cons.IH [OF rest] show ?case
    by (simp add: drawn_def stored_count_add_counter stored_total_add_counter)
qed

lemma priced_minor_units: "minor_units (round_binary64 (1999 / 100)) = Inr 1998"
  by code_simp

text \<open>
  C1 at the amount \<^verbatim>\<open>19.99\<close>: the exact amount is 1999 minor units; the float
  nearest to 19.99 times 100 is 1998.9999999999998, which \<^verbatim>\<open>int\<close> truncates, and the
  category counter stores 1998 after this one event (with count 1).
\<close>

theorem truncated_minor_units:
  "spec_minor_units (row_amount priced_row) = Some 1999
   \<and> stored_count (spending_by_category
        (tables (final_state (stream [priced_row] [calm_env] initial_state)))) ''grocery_pos''
      = 1
   \<and> stored_total (spending_by_category
        (tables (final_state (stream [priced_row] [calm_env] initial_state)))) ''grocery_pos''
      = 1998"
  using priced_minor_units
  by (simp add: iteration_def choice_def priced_row_def calm_env_def no_failure_def
      write_all_tables_def and_then_def execute_def update_counter_def Let_def
      initial_state_def empty_db_def stored_total_def stored_count_def add_counter_def
      spec_minor_units_def)

end
